theory Spec2Isabelle
  imports Complex_Main "HOL-Library.Sublist"
begin

section \<open>Python strings\<close>

text \<open>
  A Python \<open>str\<close> is modelled as a \<open>string\<close>: each \<open>char\<close> stands for the code point
  of the same number, so the model covers the texts whose code points are below 256, and
  \<open>length\<close> is Python's \<open>len\<close>. The character classes below are those of
  \<open>str.isspace\<close>, \<open>str.lower\<close> and the regular expression class \<open>\w\<close> on that
  range.
\<close>

definition isspace :: "char \<Rightarrow> bool" where
  "isspace c = ((of_char c :: nat) \<in> {9, 10, 11, 12, 13, 28, 29, 30, 31, 32, 133, 160})"

definition strip :: "string \<Rightarrow> string" where
  "strip s = rev (dropWhile isspace (rev (dropWhile isspace s)))"

definition lower_char :: "char \<Rightarrow> char" where
  "lower_char c =
     (let n = (of_char c :: nat)
      in if (65 \<le> n \<and> n \<le> 90) \<or> (192 \<le> n \<and> n \<le> 222 \<and> n \<noteq> 215)
         then char_of (n + 32) else c)"

definition lower :: "string \<Rightarrow> string" where
  "lower s = map lower_char s"

definition is_word_char :: "char \<Rightarrow> bool" where
  "is_word_char c =
     (let n = (of_char c :: nat)
      in (48 \<le> n \<and> n \<le> 57) \<or> (65 \<le> n \<and> n \<le> 90) \<or> n = 95 \<or> (97 \<le> n \<and> n \<le> 122)
         \<or> n = 170 \<or> n = 178 \<or> n = 179 \<or> n = 181 \<or> n = 185 \<or> n = 186
         \<or> (188 \<le> n \<and> n \<le> 190) \<or> (192 \<le> n \<and> n \<le> 214) \<or> (216 \<le> n \<and> n \<le> 246)
         \<or> (248 \<le> n \<and> n \<le> 255))"

text \<open>\<open>sep.join(xs)\<close>.\<close>

fun str_join :: "string \<Rightarrow> string list \<Rightarrow> string" where
  "str_join sep [] = []"
| "str_join sep [x] = x"
| "str_join sep (x # y # ys) = x @ sep @ str_join sep (y # ys)"

text \<open>\<open>sub in s\<close> and \<open>s.find(sub)\<close> (the lowest index, or \<open>-1\<close>).\<close>

fun contains :: "string \<Rightarrow> string \<Rightarrow> bool" where
  "contains sub [] = (sub = [])"
| "contains sub (c # cs) = (prefix sub (c # cs) \<or> contains sub cs)"

fun find_from :: "string \<Rightarrow> string \<Rightarrow> nat \<Rightarrow> int" where
  "find_from sub [] i = (if sub = [] then int i else - 1)"
| "find_from sub (c # cs) i = (if prefix sub (c # cs) then int i else find_from sub cs (Suc i))"

definition str_find :: "string \<Rightarrow> string \<Rightarrow> int" where
  "str_find s sub = find_from sub s 0"

text \<open>
  Slices \<open>s[i:j]\<close> and \<open>s[i:]\<close>: a negative index counts from the end, and every index is
  clamped to the string.
\<close>

definition slice_index :: "nat \<Rightarrow> int \<Rightarrow> nat" where
  "slice_index n i = (if i < 0 then nat (max 0 (int n + i)) else min n (nat i))"

definition slice :: "string \<Rightarrow> int \<Rightarrow> int \<Rightarrow> string" where
  "slice s i j =
     (let a = slice_index (length s) i; b = slice_index (length s) j
      in take (b - a) (drop a s))"

definition slice_from :: "string \<Rightarrow> int \<Rightarrow> string" where
  "slice_from s i = drop (slice_index (length s) i) s"

text \<open>\<open>s.split(sep)\<close> for a separator of one character.\<close>

fun str_split :: "char \<Rightarrow> string \<Rightarrow> string list" where
  "str_split sep [] = [[]]"
| "str_split sep (c # cs) =
     (if c = sep then [] # str_split sep cs
      else (case str_split sep cs of
              [] \<Rightarrow> [[c]]
            | p # ps \<Rightarrow> (c # p) # ps))"

text \<open>
  \<open>re.split(r'[.!?]+', s)\<close>: the pieces between the maximal runs of sentence terminators,
  the empty pieces at both ends included.
\<close>

definition is_terminator :: "char \<Rightarrow> bool" where
  "is_terminator c = (c = CHR ''.'' \<or> c = CHR ''!'' \<or> c = CHR ''?'')"

function re_split_sentences :: "string \<Rightarrow> string list" where
  "re_split_sentences s =
     (case dropWhile (\<lambda>c. \<not> is_terminator c) s of
        [] \<Rightarrow> [s]
      | t # rest \<Rightarrow>
          takeWhile (\<lambda>c. \<not> is_terminator c) s # re_split_sentences (dropWhile is_terminator rest))"
  by pat_completeness auto
termination
proof (relation "measure length", goal_cases)
  case 1
  show ?case by simp
next
  case (2 s t rest)
  have "length (dropWhile is_terminator rest) \<le> length rest"
    by (rule length_dropWhile_le)
  moreover have "length (t # rest) \<le> length s"
    using 2 length_dropWhile_le [of "\<lambda>c. \<not> is_terminator c" s] by simp
  ultimately show ?case by simp
qed

declare re_split_sentences.simps [simp del]

text \<open>\<open>re.findall(r'\b\w+\b', s)\<close>: the maximal runs of word characters, left to right.\<close>

function findall_words :: "string \<Rightarrow> string list" where
  "findall_words [] = []"
| "findall_words (c # cs) =
     (if is_word_char c
      then (c # takeWhile is_word_char cs) # findall_words (dropWhile is_word_char cs)
      else findall_words cs)"
  by pat_completeness auto
termination
  by (relation "measure length") (auto simp: le_imp_less_Suc length_dropWhile_le)

text \<open>Decimal digits, for \<open>str(n)\<close> and the zero-padded fields of a date.\<close>

definition digit_char :: "nat \<Rightarrow> char" where
  "digit_char d = char_of (48 + d)"

fun str_nat :: "nat \<Rightarrow> string" where
  "str_nat n = (if n < 10 then [digit_char n] else str_nat (n div 10) @ [digit_char (n mod 10)])"

declare str_nat.simps [simp del]

definition str_int :: "int \<Rightarrow> string" where
  "str_int i = (if i < 0 then CHR ''-'' # str_nat (nat (- i)) else str_nat (nat i))"

definition zero_pad :: "nat \<Rightarrow> string \<Rightarrow> string" where
  "zero_pad w s = replicate (w - length s) CHR ''0'' @ s"

section \<open>Data model\<close>

text \<open>
  A segment and a transcript are Python dictionaries. The keys the code reads with
  \<open>.get(key, default)\<close> may be absent, so they are optional fields here; the defaults
  are those of the code. Durations are Python integers, as the transcript parser
  produces them.
\<close>

record segment =
  seg_speaker :: "string option"
  seg_text :: "string option"
  seg_start :: real
  seg_end :: real

record transcript =
  tr_segments :: "segment list option"
  tr_duration :: "int option"
  tr_file_path :: "string option"

definition get_speaker :: "segment \<Rightarrow> string" where
  "get_speaker segment = (case seg_speaker segment of None \<Rightarrow> ''Unknown'' | Some s \<Rightarrow> s)"

definition get_text :: "segment \<Rightarrow> string" where
  "get_text segment = (case seg_text segment of None \<Rightarrow> [] | Some s \<Rightarrow> s)"

definition get_segments :: "transcript \<Rightarrow> segment list" where
  "get_segments t = (case tr_segments t of None \<Rightarrow> [] | Some segs \<Rightarrow> segs)"

record summary_data =
  speakers :: "string list"
  total_segments :: nat
  key_points :: "string list"
  action_items :: "string list"
  key_words :: "string list"
  summary_text :: string

text \<open>
  A Python \<open>set\<close> of strings is kept as the list of its members in insertion order.
  \<open>list(s)\<close> enumerates the set in the interpreter's hash order, which the program does
  not control: the enumeration is a parameter \<open>iter\<close> of the model, and
  \<open>set_iteration iter\<close> says that it enumerates every member exactly once.
\<close>

type_synonym str_set = "string list"

definition set_add :: "string \<Rightarrow> str_set \<Rightarrow> str_set" where
  "set_add x s = (if x \<in> set s then s else s @ [x])"

definition set_iteration :: "(str_set \<Rightarrow> string list) \<Rightarrow> bool" where
  "set_iteration iter = (\<forall>s. distinct s \<longrightarrow> distinct (iter s) \<and> set (iter s) = set s)"

section \<open>SummarizationService\<close>

definition common_words :: "string set" where
  "common_words =
     {''the'', ''a'', ''an'', ''and'', ''or'', ''but'', ''in'', ''on'', ''at'', ''to'', ''for'',
      ''of'', ''with'', ''by'', ''is'', ''are'', ''was'', ''were'', ''be'', ''been'', ''being'',
      ''have'', ''has'', ''had'', ''do'', ''does'', ''did'', ''will'', ''would'', ''could'',
      ''should'', ''may'', ''might'', ''must'', ''can'', ''shall''}"

subsection \<open>\<open>_extract_keywords\<close>\<close>

text \<open>
  \<open>word_freq\<close> is a dictionary, whose items come in insertion order: an association
  list. \<open>word_freq[word] = word_freq.get(word, 0) + 1\<close> updates a present key in place
  and appends a new one.
\<close>

type_synonym word_freq = "(string \<times> nat) list"

definition freq_incr :: "word_freq \<Rightarrow> string \<Rightarrow> word_freq" where
  "freq_incr freqs word =
     (if word \<in> fst ` set freqs
      then map (\<lambda>(k, v). if k = word then (k, v + 1) else (k, v)) freqs
      else freqs @ [(word, 1)])"

definition count_step :: "word_freq \<Rightarrow> string \<Rightarrow> word_freq" where
  "count_step freqs word =
     (if length word > 3 \<and> word \<notin> common_words then freq_incr freqs word else freqs)"

text \<open>
  \<open>sorted(items, key=lambda x: x[1], reverse=True)\<close>: Python's sort is stable, also with
  \<open>reverse=True\<close>, so this is the stable sort by descending frequency.
\<close>

definition sorted_by_freq_desc :: "word_freq \<Rightarrow> word_freq" where
  "sorted_by_freq_desc freqs = sort_key (\<lambda>x. - int (snd x)) freqs"

definition extract_keywords :: "string \<Rightarrow> string list" where
  "extract_keywords txt =
     (let words = findall_words (lower txt);
          word_freq = foldl count_step [] words;
          sorted_words = sorted_by_freq_desc word_freq
      in map fst (filter (\<lambda>(word, freq). freq > 1) sorted_words))"

subsection \<open>\<open>_generate_summary_text\<close>\<close>

definition substantial_sentences :: "string \<Rightarrow> string list" where
  "substantial_sentences full_text =
     map strip (filter (\<lambda>s. length (strip s) > 20) (re_split_sentences full_text))"

definition important_step :: "string list \<Rightarrow> string \<Rightarrow> string list" where
  "important_step important sentence =
     (if length important < 3 then important @ [sentence] else important)"

definition generate_summary_text :: "string list \<Rightarrow> string" where
  "generate_summary_text text_segments =
     (let full_text = str_join '' '' text_segments;
          sentences = substantial_sentences full_text;
          important_sentences = foldl important_step [] (take 5 sentences)
      in str_join '' '' important_sentences)"

subsection \<open>\<open>_extract_summary_data\<close>\<close>

record extract_state =
  st_all_text :: "string list"
  st_speakers :: str_set
  st_key_points :: "string list"
  st_action_items :: "string list"

definition action_markers :: "string list" where
  "action_markers = [''todo'', ''need to'', ''should'', ''will'', ''action'']"

definition is_action :: "string \<Rightarrow> bool" where
  "is_action txt = list_ex (\<lambda>word. contains word (lower txt)) action_markers"

definition segment_key_points :: "string \<Rightarrow> string list" where
  "segment_key_points txt =
     filter (\<lambda>sentence. length sentence > 20) (map strip (re_split_sentences txt))"

definition extract_step :: "extract_state \<Rightarrow> segment \<Rightarrow> extract_state" where
  "extract_step st segment =
     (let txt = strip (get_text segment);
          speaker = get_speaker segment
      in if txt \<noteq> []
         then st\<lparr>st_all_text := st_all_text st @ [txt],
                 st_speakers := set_add speaker (st_speakers st),
                 st_action_items :=
                   (if is_action txt then st_action_items st @ [speaker @ '': '' @ txt]
                    else st_action_items st),
                 st_key_points := st_key_points st @ segment_key_points txt\<rparr>
         else st)"

definition init_state :: extract_state where
  "init_state = \<lparr>st_all_text = [], st_speakers = [], st_key_points = [], st_action_items = []\<rparr>"

definition extract_summary_data :: "(str_set \<Rightarrow> string list) \<Rightarrow> segment list \<Rightarrow> summary_data" where
  "extract_summary_data iter segments =
     (let st = foldl extract_step init_state segments;
          full_text = str_join '' '' (st_all_text st);
          kws = extract_keywords full_text
      in \<lparr>speakers = iter (st_speakers st),
          total_segments = length segments,
          key_points = take 10 (st_key_points st),
          action_items = take 5 (st_action_items st),
          key_words = take 15 kws,
          summary_text = generate_summary_text (st_all_text st)\<rparr>)"

subsection \<open>Rendering a summary\<close>

text \<open>
  \<open>datetime.now()\<close> is an input of the model. \<open>strftime('%Y-%m-%d %H:%M:%S')\<close> and
  \<open>isoformat()\<close> print its fields in decimal, padded with zeros.
\<close>

record datetime =
  dt_year :: nat
  dt_month :: nat
  dt_day :: nat
  dt_hour :: nat
  dt_minute :: nat
  dt_second :: nat
  dt_microsecond :: nat

definition strftime_date_time :: "datetime \<Rightarrow> string" where
  "strftime_date_time now =
     zero_pad 4 (str_nat (dt_year now)) @ ''-'' @ zero_pad 2 (str_nat (dt_month now)) @ ''-''
     @ zero_pad 2 (str_nat (dt_day now)) @ '' '' @ zero_pad 2 (str_nat (dt_hour now)) @ '':''
     @ zero_pad 2 (str_nat (dt_minute now)) @ '':'' @ zero_pad 2 (str_nat (dt_second now))"

definition isoformat :: "datetime \<Rightarrow> string" where
  "isoformat now =
     zero_pad 4 (str_nat (dt_year now)) @ ''-'' @ zero_pad 2 (str_nat (dt_month now)) @ ''-''
     @ zero_pad 2 (str_nat (dt_day now)) @ ''T'' @ zero_pad 2 (str_nat (dt_hour now)) @ '':''
     @ zero_pad 2 (str_nat (dt_minute now)) @ '':'' @ zero_pad 2 (str_nat (dt_second now))
     @ (if dt_microsecond now = 0 then [] else ''.'' @ zero_pad 6 (str_nat (dt_microsecond now)))"

definition newline :: char where
  "newline = CHR 0x0A"

definition duration_or_unknown :: "transcript \<Rightarrow> string" where
  "duration_or_unknown t = (case tr_duration t of None \<Rightarrow> ''Unknown'' | Some d \<Rightarrow> str_int d)"

definition numbered :: "string list \<Rightarrow> string list" where
  "numbered items = map (\<lambda>(i, item). ''  '' @ str_nat i @ ''. '' @ item) (enumerate 1 items)"

text \<open>The list \<open>lines\<close> that \<open>_format_text_summary\<close> builds, and its join.\<close>

definition format_text_lines :: "datetime \<Rightarrow> summary_data \<Rightarrow> transcript \<Rightarrow> string list" where
  "format_text_lines now data t =
     [''MEETING SUMMARY'', replicate 50 CHR ''='', ''Date: '' @ strftime_date_time now,
      ''Duration: '' @ duration_or_unknown t @ '' seconds'', []]
     @ [''PARTICIPANTS:''] @ map (\<lambda>speaker. ''  - '' @ speaker) (speakers data) @ [[]]
     @ (if summary_text data \<noteq> [] then [''SUMMARY:'', summary_text data, []] else [])
     @ (if key_points data \<noteq> [] then [''KEY POINTS:''] @ numbered (key_points data) @ [[]] else [])
     @ (if action_items data \<noteq> []
        then [''ACTION ITEMS:''] @ numbered (action_items data) @ [[]] else [])
     @ (if key_words data \<noteq> []
        then [''TOPICS/KEYWORDS:'', str_join '', '' (key_words data)] else [])"

definition format_text_summary :: "datetime \<Rightarrow> summary_data \<Rightarrow> transcript \<Rightarrow> string" where
  "format_text_summary now data t = str_join [newline] (format_text_lines now data t)"

definition bulleted :: "string list \<Rightarrow> string list" where
  "bulleted items = map (\<lambda>item. ''- '' @ item) items"

definition format_markdown_lines :: "datetime \<Rightarrow> summary_data \<Rightarrow> transcript \<Rightarrow> string list" where
  "format_markdown_lines now data t =
     [''# Meeting Summary'', [], ''**Date:** '' @ strftime_date_time now,
      ''**Duration:** '' @ duration_or_unknown t @ '' seconds'', []]
     @ [''## Participants''] @ bulleted (speakers data) @ [[]]
     @ (if summary_text data \<noteq> [] then [''## Summary'', summary_text data, []] else [])
     @ (if key_points data \<noteq> [] then [''## Key Points''] @ bulleted (key_points data) @ [[]] else [])
     @ (if action_items data \<noteq> []
        then [''## Action Items''] @ bulleted (action_items data) @ [[]] else [])
     @ (if key_words data \<noteq> []
        then [''## Topics/Keywords'', str_join '', '' (key_words data)] else [])"

definition format_markdown_summary :: "datetime \<Rightarrow> summary_data \<Rightarrow> transcript \<Rightarrow> string" where
  "format_markdown_summary now data t = str_join [newline] (format_markdown_lines now data t)"

text \<open>
  The JSON summary is the object below, printed by
  \<open>json.dumps(summary, indent=2, ensure_ascii=False)\<close>; that library call is the
  parameter \<open>dumps\<close>.
\<close>

datatype json = JInt int | JStr string | JArr "json list" | JObj "(string \<times> json) list"

definition format_json_summary ::
  "(json \<Rightarrow> string) \<Rightarrow> datetime \<Rightarrow> summary_data \<Rightarrow> transcript \<Rightarrow> string" where
  "format_json_summary dumps now data t =
     dumps (JObj
       [(''metadata'', JObj
           [(''date'', JStr (isoformat now)),
            (''duration'', JInt (case tr_duration t of None \<Rightarrow> 0 | Some d \<Rightarrow> d)),
            (''file_path'', JStr (case tr_file_path t of None \<Rightarrow> [] | Some p \<Rightarrow> p))]),
        (''participants'', JArr (map JStr (speakers data))),
        (''summary'', JStr (summary_text data)),
        (''key_points'', JArr (map JStr (key_points data))),
        (''action_items'', JArr (map JStr (action_items data))),
        (''keywords'', JArr (map JStr (key_words data)))])"

subsection \<open>\<open>summarize\<close>\<close>

definition summarize ::
  "(str_set \<Rightarrow> string list) \<Rightarrow> (json \<Rightarrow> string) \<Rightarrow> datetime \<Rightarrow> transcript \<Rightarrow> string \<Rightarrow> string" where
  "summarize iter dumps now t format_type =
     (let segments = get_segments t
      in if segments = [] then ''No transcript content to summarize.''
         else let data = extract_summary_data iter segments
              in if format_type = ''md'' then format_markdown_summary now data t
                 else if format_type = ''json'' then format_json_summary dumps now data t
                 else format_text_summary now data t)"

section \<open>Transcript text files\<close>



text \<open>
  \<open>_parse_transcript_file\<close>. Neither \<open>find\<close> nor a slice raises on a string, so the
  \<open>except\<close> branch of the loop body is never taken.
\<close>

definition parse_step :: "segment list \<Rightarrow> string \<Rightarrow> segment list" where
  "parse_step segments raw =
     (let line = strip raw
      in if line \<noteq> [] \<and> contains ''['' line \<and> contains '']:'' line
         then (let speaker_end = str_find line '']:'';
                   speaker = strip (slice line 1 speaker_end);
                   txt = strip (slice_from line (speaker_end + 2))
               in segments @ [\<lparr>seg_speaker = Some speaker, seg_text = Some txt,
                                 seg_start = 0, seg_end = 0\<rparr>])
         else segments)"

definition parse_transcript_file :: "string \<Rightarrow> transcript" where
  "parse_transcript_file content =
     (let segments = foldl parse_step [] (str_split newline content)
      in \<lparr>tr_segments = Some segments,
          tr_duration = Some (int (length segments) * 10),
          tr_file_path = None\<rparr>)"

section \<open>Recording\<close>

text \<open>
  What the audio library and the file system do is an input of the model: whether the
  device opens, whether the stream closes, and whether the WAV file can be written. A call either returns a value
  or raises; the fields assigned before a raise stay assigned. The capture thread
  appends the chunks it read to \<open>frames\<close> while the service is recording.
\<close>

datatype 'a outcome = Return 'a | Raise

datatype device = Device_Ok | PyAudio_Fails | Open_Fails

type_synonym chunk = "nat list"

record recording_service =
  rs_audio :: bool
  rs_stream :: bool
  rs_frames :: "chunk list"
  rs_is_recording :: bool
  rs_recording_thread :: bool
  rs_output_path :: "string option"

definition rs_init :: recording_service where
  "rs_init = \<lparr>rs_audio = False, rs_stream = False, rs_frames = [], rs_is_recording = False,
              rs_recording_thread = False, rs_output_path = None\<rparr>"

definition rs_start_recording ::
  "device \<Rightarrow> string option \<Rightarrow> recording_service \<Rightarrow> unit outcome \<times> recording_service" where
  "rs_start_recording dev output_path s =
     (if rs_is_recording s then (Return (), s)
      else let s1 = s\<lparr>rs_output_path := output_path, rs_frames := [], rs_is_recording := True\<rparr>
           in case dev of
                PyAudio_Fails \<Rightarrow> (Raise, s1)
              | Open_Fails \<Rightarrow> (Raise, s1\<lparr>rs_audio := True\<rparr>)
              | Device_Ok \<Rightarrow>
                  (Return (), s1\<lparr>rs_audio := True, rs_stream := True, rs_recording_thread := True\<rparr>))"

definition record_loop :: "chunk list \<Rightarrow> recording_service \<Rightarrow> recording_service" where
  "record_loop chunks s =
     (if rs_is_recording s then s\<lparr>rs_frames := rs_frames s @ chunks\<rparr> else s)"

definition rs_stop_recording ::
  "bool \<Rightarrow> bool \<Rightarrow> recording_service \<Rightarrow> string option outcome \<times> recording_service" where
  "rs_stop_recording teardown_ok save_ok s =
     (if \<not> rs_is_recording s then (Return None, s)
      else let s1 = s\<lparr>rs_is_recording := False\<rparr>
           in if \<not> teardown_ok then (Raise, s1)
              else case rs_output_path s1 of
                     None \<Rightarrow> (Return None, s1)
                   | Some p \<Rightarrow>
                       if p \<noteq> [] \<and> rs_frames s1 \<noteq> []
                       then (if save_ok then (Return (Some p), s1) else (Return None, s1))
                       else (Return None, s1))"

text \<open>
  \<open>TabletopNotetakerApp\<close>. \<open>Path p\<close> is the \<open>pathlib\<close> object made from \<open>p\<close>; what
  \<open>str\<close> prints for it depends on the platform and is the parameter \<open>str_path\<close>.
\<close>

datatype path = Path string

record app =
  app_recording_service :: recording_service
  app_is_recording :: bool
  app_current_recording_path :: "path option"
  app_recordings :: "string list"

definition app_init :: app where
  "app_init = \<lparr>app_recording_service = rs_init, app_is_recording = False,
               app_current_recording_path = None, app_recordings = []\<rparr>"

definition strftime_compact :: "datetime \<Rightarrow> string" where
  "strftime_compact now =
     zero_pad 4 (str_nat (dt_year now)) @ zero_pad 2 (str_nat (dt_month now))
     @ zero_pad 2 (str_nat (dt_day now)) @ ''_'' @ zero_pad 2 (str_nat (dt_hour now))
     @ zero_pad 2 (str_nat (dt_minute now)) @ zero_pad 2 (str_nat (dt_second now))"

definition start_recording ::
  "(path \<Rightarrow> string) \<Rightarrow> datetime \<Rightarrow> device \<Rightarrow> string option \<Rightarrow> app \<Rightarrow> bool \<times> app" where
  "start_recording str_path now dev output_path a =
     (let p = (case output_path of
                 None \<Rightarrow> Path (''recording_'' @ strftime_compact now @ ''.wav'')
               | Some q \<Rightarrow> if q \<noteq> [] then Path q
                           else Path (''recording_'' @ strftime_compact now @ ''.wav''));
          a1 = a\<lparr>app_current_recording_path := Some p\<rparr>
      in case rs_start_recording dev (Some (str_path p)) (app_recording_service a1) of
           (Raise, s) \<Rightarrow> (False, a1\<lparr>app_recording_service := s\<rparr>)
         | (Return u, s) \<Rightarrow> (True, a1\<lparr>app_recording_service := s, app_is_recording := True\<rparr>))"

definition stop_recording ::
  "(path \<Rightarrow> string) \<Rightarrow> bool \<Rightarrow> bool \<Rightarrow> app \<Rightarrow> string option \<times> app" where
  "stop_recording str_path teardown_ok save_ok a =
     (if app_is_recording a
      then case rs_stop_recording teardown_ok save_ok (app_recording_service a) of
             (Raise, s) \<Rightarrow> (None, a\<lparr>app_recording_service := s\<rparr>)
           | (Return r, s) \<Rightarrow>
               (let a1 = a\<lparr>app_recording_service := s, app_is_recording := False\<rparr>
                in case app_current_recording_path a1 of
                     None \<Rightarrow> (Some ''None'', a1)
                   | Some p \<Rightarrow>
                       (Some (str_path p),
                        a1\<lparr>app_recordings := app_recordings a1 @ [str_path p]\<rparr>))
      else (None, a))"

section \<open>Notions used in the statements\<close>

text \<open>
  The position of the first occurrence of a word, the order "more frequent first, then
  earlier first occurrence", the segments that have text, the full text that the
  extraction joins from them, and the distinct members of a list in order of first
  appearance.
\<close>

definition first_index :: "'a list \<Rightarrow> 'a \<Rightarrow> nat" where
  "first_index xs x = length (takeWhile (\<lambda>y. y \<noteq> x) xs)"

definition by_freq_then_first :: "string list \<Rightarrow> string \<Rightarrow> string \<Rightarrow> bool" where
  "by_freq_then_first ws a b \<longleftrightarrow>
     count_list ws b < count_list ws a
     \<or> (count_list ws a = count_list ws b \<and> first_index ws a < first_index ws b)"

definition keep_word :: "string \<Rightarrow> bool" where
  "keep_word word = (length word > 3 \<and> word \<notin> common_words)"

definition has_text :: "segment \<Rightarrow> bool" where
  "has_text segment = (strip (get_text segment) \<noteq> [])"

definition spoken :: "segment list \<Rightarrow> segment list" where
  "spoken segments = filter has_text segments"

definition full_text_of :: "segment list \<Rightarrow> string" where
  "full_text_of segments = str_join '' '' (map (\<lambda>s. strip (get_text s)) (spoken segments))"

fun first_appearance :: "'a list \<Rightarrow> 'a list" where
  "first_appearance [] = []"
| "first_appearance (x # xs) = x # filter (\<lambda>y. y \<noteq> x) (first_appearance xs)"

text \<open>The invariant of the counting loop of \<open>_extract_keywords\<close>, after the words \<open>ws\<close>.\<close>

definition counted :: "string list \<Rightarrow> word_freq \<Rightarrow> bool" where
  "counted ws freqs \<longleftrightarrow>
     distinct (map fst freqs) \<and>
     fst ` set freqs = {w \<in> set ws. keep_word w} \<and>
     (\<forall>(k, v) \<in> set freqs. v = count_list ws k) \<and>
     sorted_wrt (\<lambda>a b. first_index ws a < first_index ws b) (map fst freqs)"

subsection \<open>Sample inputs\<close>

definition sample_text :: string where
  "sample_text = ''Alpha beta; will ALPHA beta? will should beta should gamma''"

definition alice_bob :: "segment list" where
  "alice_bob =
     [\<lparr>seg_speaker = Some ''Alice'', seg_text = Some ''Hello everyone.'',
        seg_start = 0, seg_end = 5\<rparr>,
      \<lparr>seg_speaker = Some ''Bob'', seg_text = Some ''Hi Alice.'',
        seg_start = 6, seg_end = 12\<rparr>,
      \<lparr>seg_speaker = Some ''Alice'', seg_text = Some ''Good idea.'',
        seg_start = 13, seg_end = 18\<rparr>]"

definition meeting :: "segment list" where
  "meeting =
     [\<lparr>seg_speaker = Some ''Alice'', seg_text = Some ''Hello everyone, let us start the meeting.'',
        seg_start = 0, seg_end = 5\<rparr>,
      \<lparr>seg_speaker = Some ''Bob'',
        seg_text = Some ''I think we should discuss the new project timeline.'',
        seg_start = 6, seg_end = 12\<rparr>,
      \<lparr>seg_speaker = Some ''Alice'',
        seg_text = Some ''Good idea. We need to finish by next Friday.'',
        seg_start = 13, seg_end = 18\<rparr>]"

definition empty_transcript :: transcript where
  "empty_transcript = \<lparr>tr_segments = Some [], tr_duration = None, tr_file_path = None\<rparr>"

definition noon :: datetime where
  "noon = \<lparr>dt_year = 2024, dt_month = 3, dt_day = 9, dt_hour = 12, dt_minute = 0, dt_second = 0,
            dt_microsecond = 0\<rparr>"


text \<open>
  \<open>plain_path\<close> prints a path as the string it was made from, which is what \<open>str\<close>
  does for a path already in normal form. \<open>recording_app\<close> is the application after
  \<open>start_recording('a.wav')\<close>, before the capture thread has read a chunk.
\<close>

definition plain_path :: "path \<Rightarrow> string" where
  "plain_path p = (case p of Path s \<Rightarrow> s)"

definition recording_app :: app where
  "recording_app =
     \<lparr>app_recording_service =
        \<lparr>rs_audio = True, rs_stream = True, rs_frames = [], rs_is_recording = True,
           rs_recording_thread = True, rs_output_path = Some ''a.wav''\<rparr>,
      app_is_recording = True,
      app_current_recording_path = Some (Path ''a.wav''),
      app_recordings = []\<rparr>"

subsection \<open>Transcript lines\<close>

text \<open>
  The segment the parser makes, the line \<open>_save_as_text\<close> writes for a segment, the
  (speaker, text) pairs of the round trip, and the segments that a line of the text
  format can carry: the speaker has no surrounding white space, no newline and no
  \<open>]:\<close>, the trimmed text no newline.
\<close>

definition parsed_segment :: "string \<Rightarrow> string \<Rightarrow> segment" where
  "parsed_segment speaker txt =
     \<lparr>seg_speaker = Some speaker, seg_text = Some txt, seg_start = 0, seg_end = 0\<rparr>"






definition game_line :: string where
  "game_line = ''  [ Game Master ]:  roll for initiative  ''"



section \<open>The counting loop\<close>

lemma first_index_less: "x \<in> set xs \<Longrightarrow> first_index xs x < length xs"
  unfolding first_index_def by (induction xs) auto

lemma first_index_snoc:
  "first_index (xs @ [y]) x =
     (if x \<in> set xs then first_index xs x else if x = y then length xs else Suc (length xs))"
  unfolding first_index_def by (induction xs) auto

lemma map_fst_freq_incr:
  "map fst (freq_incr freqs w) =
     (if w \<in> fst ` set freqs then map fst freqs else map fst freqs @ [w])"
  unfolding freq_incr_def by (auto simp: case_prod_beta)

lemma freq_incr_mem:
  "(k, v) \<in> set (freq_incr freqs w) \<Longrightarrow>
     (k \<noteq> w \<and> (k, v) \<in> set freqs) \<or> (k = w \<and> w \<notin> fst ` set freqs \<and> v = 1)
     \<or> (k = w \<and> (\<exists>v'. (w, v') \<in> set freqs \<and> v = v' + 1))"
  unfolding freq_incr_def by (force split: if_splits)

lemma first_index_mono_snoc:
  assumes "sorted_wrt (\<lambda>a b. first_index ws a < first_index ws b) ks" and "set ks \<subseteq> set ws"
  shows "sorted_wrt (\<lambda>a b. first_index (ws @ [w]) a < first_index (ws @ [w]) b) ks"
proof (rule sorted_wrt_mono_rel [OF _ assms(1)])
  fix a b assume "a \<in> set ks" "b \<in> set ks" "first_index ws a < first_index ws b"
  with assms(2) show "first_index (ws @ [w]) a < first_index (ws @ [w]) b"
    by (auto simp: first_index_snoc)
qed

lemma counted_skip:
  assumes "counted ws freqs" "\<not> keep_word w"
  shows "counted (ws @ [w]) freqs"
proof -
  from assms have keys: "fst ` set freqs = {x \<in> set ws. keep_word x}"
    and d: "distinct (map fst freqs)"
    and c: "\<forall>(k, v) \<in> set freqs. v = count_list ws k"
    and s: "sorted_wrt (\<lambda>a b. first_index ws a < first_index ws b) (map fst freqs)"
    by (simp_all add: counted_def)
  have k1: "fst ` set freqs = {x \<in> set (ws @ [w]). keep_word x}"
    using keys assms(2) by auto
  have c1: "\<forall>(k, v) \<in> set freqs. v = count_list (ws @ [w]) k"
  proof (clarify)
    fix k v assume kv: "(k, v) \<in> set freqs"
    then have "k \<in> fst ` set freqs" by force
    with keys assms(2) have "k \<noteq> w" by auto
    with c kv show "v = count_list (ws @ [w]) k" by auto
  qed
  have "set (map fst freqs) \<subseteq> set ws" using keys by auto
  from first_index_mono_snoc [OF s this]
  have "sorted_wrt (\<lambda>a b. first_index (ws @ [w]) a < first_index (ws @ [w]) b) (map fst freqs)" .
  with d k1 c1 show ?thesis by (simp add: counted_def)
qed

lemma counted_incr:
  assumes "counted ws freqs" "keep_word w"
  shows "counted (ws @ [w]) (freq_incr freqs w)"
proof -
  from assms have keys: "fst ` set freqs = {x \<in> set ws. keep_word x}"
    and d: "distinct (map fst freqs)"
    and c: "\<forall>(k, v) \<in> set freqs. v = count_list ws k"
    and s: "sorted_wrt (\<lambda>a b. first_index ws a < first_index ws b) (map fst freqs)"
    by (simp_all add: counted_def)
  have inset: "w \<in> fst ` set freqs \<longleftrightarrow> w \<in> set ws"
    using keys assms(2) by auto
  have d1: "distinct (map fst (freq_incr freqs w))"
    using d by (auto simp: map_fst_freq_incr)
  have "set (map fst (freq_incr freqs w)) = {x \<in> set (ws @ [w]). keep_word x}"
    unfolding map_fst_freq_incr using keys assms(2) by auto
  then have k1: "fst ` set (freq_incr freqs w) = {x \<in> set (ws @ [w]). keep_word x}"
    by simp
  have c1: "\<forall>(k, v) \<in> set (freq_incr freqs w). v = count_list (ws @ [w]) k"
  proof (clarify)
    fix k v assume "(k, v) \<in> set (freq_incr freqs w)"
    from freq_incr_mem [OF this] show "v = count_list (ws @ [w]) k"
    proof (elim disjE conjE exE)
      assume "k \<noteq> w" "(k, v) \<in> set freqs"
      with c show ?thesis by auto
    next
      assume "k = w" "w \<notin> fst ` set freqs" "v = 1"
      with inset show ?thesis by simp
    next
      fix v' assume "k = w" "(w, v') \<in> set freqs" "v = v' + 1"
      with c show ?thesis by auto
    qed
  qed
  have sub: "set (map fst freqs) \<subseteq> set ws" using keys by auto
  from first_index_mono_snoc [OF s sub]
  have mono: "sorted_wrt (\<lambda>a b. first_index (ws @ [w]) a < first_index (ws @ [w]) b)
                (map fst freqs)" .
  have s1: "sorted_wrt (\<lambda>a b. first_index (ws @ [w]) a < first_index (ws @ [w]) b)
              (map fst (freq_incr freqs w))"
  proof (cases "w \<in> fst ` set freqs")
    case True
    with mono show ?thesis by (simp add: map_fst_freq_incr)
  next
    case False
    with inset have "w \<notin> set ws" by simp
    with sub have "\<forall>a \<in> set (map fst freqs).
        first_index (ws @ [w]) a < first_index (ws @ [w]) w"
      by (auto simp: first_index_snoc first_index_less)
    with mono False show ?thesis
      by (simp add: map_fst_freq_incr sorted_wrt_append)
  qed
  from d1 k1 c1 s1 show ?thesis by (simp add: counted_def)
qed

lemma counted_loop: "counted ws (foldl count_step [] ws)"
proof (induction ws rule: rev_induct)
  case Nil
  show ?case by (simp add: counted_def)
next
  case (snoc w ws)
  show ?case
  proof (cases "keep_word w")
    case True
    then have "count_step (foldl count_step [] ws) w = freq_incr (foldl count_step [] ws) w"
      by (simp add: count_step_def keep_word_def)
    with counted_incr [OF snoc True] show ?thesis by simp
  next
    case False
    then have "count_step (foldl count_step [] ws) w = foldl count_step [] ws"
      by (auto simp add: count_step_def keep_word_def)
    with counted_skip [OF snoc False] show ?thesis by simp
  qed
qed

section \<open>The stable sort by descending frequency\<close>

lemma insort_key_lex:
  fixes f :: "'a \<Rightarrow> int" and g :: "'a \<Rightarrow> nat"
  assumes "sorted_wrt (\<lambda>a b. f a < f b \<or> (f a = f b \<and> g a < g b)) ys"
    and "\<forall>y \<in> set ys. g x < g y"
  shows "sorted_wrt (\<lambda>a b. f a < f b \<or> (f a = f b \<and> g a < g b)) (insort_key f x ys)"
  using assms
proof (induction ys)
  case Nil
  then show ?case by simp
next
  case (Cons y ys)
  show ?case
  proof (cases "f x \<le> f y")
    case True
    have "\<forall>z \<in> set ys. f y \<le> f z" using Cons.prems(1) by auto
    with True Cons.prems show ?thesis by (auto simp: le_less)
  next
    case False
    with Cons show ?thesis by (auto simp: set_insort_key)
  qed
qed

lemma sort_key_lex:
  fixes f :: "'a \<Rightarrow> int" and g :: "'a \<Rightarrow> nat"
  assumes "sorted_wrt (\<lambda>a b. g a < g b) xs"
  shows "sorted_wrt (\<lambda>a b. f a < f b \<or> (f a = f b \<and> g a < g b)) (sort_key f xs)"
  using assms
proof (induction xs)
  case Nil
  then show ?case by simp
next
  case (Cons x xs)
  then have "sorted_wrt (\<lambda>a b. f a < f b \<or> (f a = f b \<and> g a < g b)) (sort_key f xs)"
    and "\<forall>y \<in> set (sort_key f xs). g x < g y"
    by auto
  then show ?case
    by (simp add: sort_key_simps insort_key_lex del: set_sort)
qed

lemma sorted_words_ordered:
  assumes "counted ws freqs"
  shows "sorted_wrt (by_freq_then_first ws) (map fst (sorted_by_freq_desc freqs))"
proof -
  let ?f = "\<lambda>x :: string \<times> nat. - int (snd x)"
  let ?g = "\<lambda>x :: string \<times> nat. first_index ws (fst x)"
  from assms have "sorted_wrt (\<lambda>a b. ?g a < ?g b) freqs"
    and c: "\<forall>(k, v) \<in> set freqs. v = count_list ws k"
    by (simp_all add: counted_def sorted_wrt_map)
  then have "sorted_wrt (\<lambda>a b. ?f a < ?f b \<or> (?f a = ?f b \<and> ?g a < ?g b)) (sort_key ?f freqs)"
    by (intro sort_key_lex)
  then have "sorted_wrt (\<lambda>a b. by_freq_then_first ws (fst a) (fst b)) (sort_key ?f freqs)"
  proof (rule sorted_wrt_mono_rel [rotated])
    fix a b assume "a \<in> set (sort_key ?f freqs)" "b \<in> set (sort_key ?f freqs)"
      and r: "?f a < ?f b \<or> (?f a = ?f b \<and> ?g a < ?g b)"
    with c have "snd a = count_list ws (fst a)" "snd b = count_list ws (fst b)"
      by auto
    with r show "by_freq_then_first ws (fst a) (fst b)"
      by (auto simp: by_freq_then_first_def)
  qed
  then show ?thesis
    by (simp add: sorted_by_freq_desc_def sorted_wrt_map)
qed

section \<open>Keywords\<close>

lemma extract_keywords_mem:
  assumes "k \<in> set (extract_keywords txt)"
  shows "\<exists>v. (k, v) \<in> set (foldl count_step [] (findall_words (lower txt))) \<and> 1 < v"
  using assms by (auto simp: extract_keywords_def Let_def sorted_by_freq_desc_def)

lemma extract_keywords_freq:
  assumes "k \<in> set (extract_keywords txt)"
  shows "1 < count_list (findall_words (lower txt)) k"
proof -
  from extract_keywords_mem [OF assms] obtain v
    where "(k, v) \<in> set (foldl count_step [] (findall_words (lower txt)))" "1 < v" by blast
  with counted_loop [of "findall_words (lower txt)"] show ?thesis
    by (auto simp: counted_def)
qed

lemma extract_keywords_keep:
  assumes "k \<in> set (extract_keywords txt)"
  shows "keep_word k \<and> k \<in> set (findall_words (lower txt))"
proof -
  from extract_keywords_mem [OF assms] obtain v
    where "(k, v) \<in> set (foldl count_step [] (findall_words (lower txt)))" by blast
  then have "k \<in> fst ` set (foldl count_step [] (findall_words (lower txt)))" by force
  with counted_loop [of "findall_words (lower txt)"] show ?thesis
    by (simp add: counted_def)
qed

lemma extract_keywords_sorted:
  "sorted_wrt (by_freq_then_first (findall_words (lower txt))) (extract_keywords txt)"
proof -
  let ?ws = "findall_words (lower txt)"
  let ?sorted = "sorted_by_freq_desc (foldl count_step [] ?ws)"
  have "sorted_wrt (\<lambda>a b. by_freq_then_first ?ws (fst a) (fst b)) ?sorted"
    using sorted_words_ordered [OF counted_loop [of ?ws]] by (simp add: sorted_wrt_map)
  then have "sorted_wrt (\<lambda>a b. by_freq_then_first ?ws (fst a) (fst b))
               (filter (\<lambda>(word, freq). freq > 1) ?sorted)"
    by (rule sorted_wrt_filter)
  then show ?thesis
    by (simp add: extract_keywords_def Let_def sorted_wrt_map)
qed

lemma sample_keywords: "extract_keywords sample_text = [''beta'', ''alpha'']"
  by code_simp

lemma card_common_words: "card common_words = 36"
  by (simp add: common_words_def)

text \<open>
  C3. For every text, with the corpus being its word tokens: every extracted keyword
  occurs more than once in the corpus; the keywords are in descending order of
  frequency, keywords of equal frequency in the order of their first occurrence in the
  text; the same holds of the first 15 of them, which are the keywords of the
  summary data, at most 15.
\<close>

theorem keywords_frequency_order:
  "(\<forall>k \<in> set (extract_keywords txt). 1 < count_list (findall_words (lower txt)) k)
   \<and> sorted_wrt (by_freq_then_first (findall_words (lower txt))) (extract_keywords txt)
   \<and> sorted_wrt (by_freq_then_first (findall_words (lower txt))) (take 15 (extract_keywords txt))
   \<and> set (take 15 (extract_keywords txt)) \<subseteq> set (extract_keywords txt)
   \<and> length (take 15 (extract_keywords txt)) \<le> 15
   \<and> key_words (extract_summary_data iter segments)
       = take 15 (extract_keywords
           (str_join '' '' (st_all_text (foldl extract_step init_state segments))))"
  by (intro conjI ballI extract_keywords_freq extract_keywords_sorted sorted_wrt_take
      set_take_subset)
    (simp_all add: extract_summary_data_def Let_def)

theorem keywords_frequency_order_witness:
  "''alpha'' \<in> set (extract_keywords sample_text)
   \<and> 1 < count_list (findall_words (lower sample_text)) ''alpha''
   \<and> extract_keywords sample_text = [''beta'', ''alpha'']
   \<and> by_freq_then_first (findall_words (lower sample_text)) ''beta'' ''alpha''"
  using keywords_frequency_order [of sample_text] sample_keywords by simp

text \<open>
  C10, as amended. The stop set has 36 words, not 40. No extracted keyword is in the
  stop set and none has length 3 or less, so ``will'' and ``should'' are never
  keywords; the same holds of the keywords of the summary data.
\<close>

theorem keywords_exclude_common_words:
  "(\<forall>k \<in> set (extract_keywords txt). k \<notin> common_words \<and> 3 < length k)
   \<and> ''will'' \<notin> set (extract_keywords txt)
   \<and> ''should'' \<notin> set (extract_keywords txt)
   \<and> (\<forall>k \<in> set (key_words (extract_summary_data iter segments)).
         k \<notin> common_words \<and> 3 < length k)
   \<and> card common_words = 36"
proof -
  have kept: "k \<notin> common_words \<and> 3 < length k" if "k \<in> set (extract_keywords t)" for k t
    using extract_keywords_keep [OF that] by (simp add: keep_word_def)
  have "''will'' \<in> common_words" "''should'' \<in> common_words"
    by (simp_all add: common_words_def)
  with kept [where t = "txt"] have "''will'' \<notin> set (extract_keywords txt)"
    "''should'' \<notin> set (extract_keywords txt)"
    by blast+
  moreover have "k \<notin> common_words \<and> 3 < length k"
    if "k \<in> set (key_words (extract_summary_data iter segments))" for k
  proof -
    from that obtain t where "k \<in> set (take 15 (extract_keywords t))"
      by (auto simp: extract_summary_data_def Let_def)
    then have "k \<in> set (extract_keywords t)" by (rule in_set_takeD)
    then show ?thesis by (rule kept)
  qed
  ultimately show ?thesis
    using kept [where t = "txt"] card_common_words by blast
qed

theorem keywords_exclude_common_words_witness:
  "''beta'' \<in> set (extract_keywords sample_text) \<and> ''beta'' \<notin> common_words
   \<and> ''will'' \<in> set (findall_words (lower sample_text))
   \<and> 1 < count_list (findall_words (lower sample_text)) ''will''
   \<and> ''will'' \<notin> set (extract_keywords sample_text)"
proof -
  have "''will'' \<in> set (findall_words (lower sample_text))"
    "1 < count_list (findall_words (lower sample_text)) ''will''"
    by code_simp+
  then show ?thesis
    using keywords_exclude_common_words [of sample_text] sample_keywords by simp
qed

theorem stop_set_size_counterexample: "card common_words \<noteq> 40"
  by (simp add: common_words_def)

section \<open>Speakers\<close>

lemma set_first_appearance: "set (first_appearance xs) = set xs"
  by (induction xs) auto

lemma distinct_first_appearance: "distinct (first_appearance xs)"
  by (induction xs) auto

lemma foldl_set_add:
  "foldl (\<lambda>s x. set_add x s) acc xs = acc @ filter (\<lambda>x. x \<notin> set acc) (first_appearance xs)"
proof (induction xs arbitrary: acc)
  case Nil
  show ?case by simp
next
  case (Cons x xs)
  show ?case
  proof (cases "x \<in> set acc")
    case True
    then have "filter (\<lambda>y. y \<notin> set acc) (filter (\<lambda>y. y \<noteq> x) (first_appearance xs))
                 = filter (\<lambda>y. y \<notin> set acc) (first_appearance xs)"
      by (auto intro: filter_cong)
    with True Cons.IH [of acc] show ?thesis by (simp add: set_add_def)
  next
    case False
    have "filter (\<lambda>y. y \<notin> set (acc @ [x])) (first_appearance xs)
            = filter (\<lambda>y. y \<notin> set acc) (filter (\<lambda>y. y \<noteq> x) (first_appearance xs))"
      by (auto intro: filter_cong)
    with False Cons.IH [of "acc @ [x]"] show ?thesis by (simp add: set_add_def)
  qed
qed

lemma extract_step_cases:
  "extract_step st segment =
     (if has_text segment
      then st\<lparr>st_all_text := st_all_text st @ [strip (get_text segment)],
              st_speakers := set_add (get_speaker segment) (st_speakers st),
              st_action_items := st_action_items st
                @ (if is_action (strip (get_text segment))
                   then [get_speaker segment @ '': '' @ strip (get_text segment)] else []),
              st_key_points := st_key_points st @ segment_key_points (strip (get_text segment))\<rparr>
      else st)"
  by (simp add: extract_step_def has_text_def Let_def)

lemma loop_all_text:
  "st_all_text (foldl extract_step st segments)
     = st_all_text st @ map (\<lambda>s. strip (get_text s)) (spoken segments)"
  by (induction segments arbitrary: st) (simp_all add: extract_step_cases spoken_def)

lemma loop_speakers:
  "st_speakers (foldl extract_step st segments)
     = foldl (\<lambda>s x. set_add x s) (st_speakers st) (map get_speaker (spoken segments))"
  by (induction segments arbitrary: st) (simp_all add: extract_step_cases spoken_def)

lemma loop_key_points:
  "st_key_points (foldl extract_step st segments)
     = st_key_points st
       @ concat (map (\<lambda>s. segment_key_points (strip (get_text s))) (spoken segments))"
  by (induction segments arbitrary: st) (simp_all add: extract_step_cases spoken_def)

lemma loop_action_items:
  "st_action_items (foldl extract_step st segments)
     = st_action_items st
       @ map (\<lambda>s. get_speaker s @ '': '' @ strip (get_text s))
           (filter (\<lambda>s. is_action (strip (get_text s))) (spoken segments))"
  by (induction segments arbitrary: st) (simp_all add: extract_step_cases spoken_def)

lemma speakers_extract:
  "speakers (extract_summary_data iter segments)
     = iter (first_appearance (map get_speaker (spoken segments)))"
  by (simp add: extract_summary_data_def Let_def loop_speakers foldl_set_add init_state_def)

lemma set_iteration_rev: "set_iteration rev"
  by (simp add: set_iteration_def)

lemma spoken_alice_bob: "map get_speaker (spoken alice_bob) = [''Alice'', ''Bob'', ''Alice'']"
  by (simp add: spoken_def alice_bob_def has_text_def get_text_def get_speaker_def strip_def
      isspace_def)

text \<open>
  C1, as amended. The speakers list is the enumeration, in the set's iteration order,
  of the distinct speaker labels of the segments with non-empty trimmed text: it holds
  exactly these labels, each once. Its order is that of the set, which need not be the
  order of first appearance.
\<close>

theorem speakers_distinct_labels:
  assumes "set_iteration iter"
  shows "set (speakers (extract_summary_data iter segments)) = get_speaker ` set (spoken segments)
         \<and> distinct (speakers (extract_summary_data iter segments))
         \<and> speakers (extract_summary_data iter segments)
             = iter (first_appearance (map get_speaker (spoken segments)))"
proof -
  let ?fa = "first_appearance (map get_speaker (spoken segments))"
  have "distinct ?fa" by (rule distinct_first_appearance)
  with assms have "distinct (iter ?fa)" "set (iter ?fa) = set ?fa"
    by (simp_all add: set_iteration_def)
  then show ?thesis by (simp add: speakers_extract set_first_appearance)
qed

theorem speakers_distinct_labels_witness:
  "set_iteration rev \<and> speakers (extract_summary_data rev alice_bob) = [''Bob'', ''Alice'']
   \<and> distinct (speakers (extract_summary_data rev alice_bob))"
  using speakers_distinct_labels [OF set_iteration_rev, of alice_bob] spoken_alice_bob
  by (simp add: set_iteration_rev)

theorem speakers_first_appearance_counterexample:
  "set_iteration rev
   \<and> first_appearance (map get_speaker (spoken alice_bob)) = [''Alice'', ''Bob'']
   \<and> speakers (extract_summary_data rev alice_bob) = [''Bob'', ''Alice'']"
  by (simp add: set_iteration_rev speakers_extract spoken_alice_bob)

section \<open>Caps of the summary data\<close>

lemma foldl_important_step:
  "foldl important_step acc xs = acc @ take (3 - length acc) xs"
proof (induction xs arbitrary: acc)
  case Nil
  show ?case by simp
next
  case (Cons x xs)
  show ?case
  proof (cases "length acc < 3")
    case True
    then have "3 - length acc = Suc (3 - length (acc @ [x]))" by simp
    with True Cons.IH [of "acc @ [x]"] show ?thesis
      by (simp add: important_step_def)
  next
    case False
    with Cons.IH [of acc] show ?thesis by (simp add: important_step_def)
  qed
qed

lemma generate_summary_text_take:
  "generate_summary_text texts
     = str_join '' '' (take 3 (take 5 (substantial_sentences (str_join '' '' texts))))"
  by (simp add: generate_summary_text_def Let_def foldl_important_step)

lemma substantial_length: "s \<in> set (substantial_sentences s0) \<Longrightarrow> 20 < length s"
  by (auto simp: substantial_sentences_def)

lemma all_text_extract:
  "st_all_text (foldl extract_step init_state segments)
     = map (\<lambda>s. strip (get_text s)) (spoken segments)"
  by (simp add: loop_all_text init_state_def)

lemma meeting_sentences:
  "substantial_sentences (full_text_of meeting)
     = [''Hello everyone, let us start the meeting'',
        ''I think we should discuss the new project timeline'',
        ''We need to finish by next Friday'']"
  by code_simp

text \<open>
  C4. For every list of segments, the summary data has at most 10 key points, at most 5
  action items and at most 15 keywords, and its summary text is the join, with one
  space, of the first 3 of the first 5 substantial sentences of the full text, in their
  order; every substantial sentence is longer than 20 characters.
\<close>

theorem summary_caps:
  "length (key_points (extract_summary_data iter segments)) \<le> 10
   \<and> length (action_items (extract_summary_data iter segments)) \<le> 5
   \<and> length (key_words (extract_summary_data iter segments)) \<le> 15
   \<and> summary_text (extract_summary_data iter segments)
       = str_join '' '' (take 3 (take 5 (substantial_sentences (full_text_of segments))))
   \<and> length (take 3 (take 5 (substantial_sentences (full_text_of segments)))) \<le> 3
   \<and> (\<forall>s \<in> set (substantial_sentences (full_text_of segments)). 20 < length s)"
  by (simp add: extract_summary_data_def Let_def generate_summary_text_take all_text_extract
      full_text_of_def substantial_length)

theorem summary_caps_witness:
  "''We need to finish by next Friday'' \<in> set (substantial_sentences (full_text_of meeting))
   \<and> 20 < length ''We need to finish by next Friday''
   \<and> summary_text (extract_summary_data id meeting)
       = ''Hello everyone, let us start the meeting I think we should discuss the new project timeline We need to finish by next Friday''"
  using summary_caps [of id meeting] meeting_sentences by simp

section \<open>Summaries\<close>

text \<open>
  C5. For every transcript whose list of segments is empty (or absent), and every
  format, \<open>summarize\<close> returns the string ``No transcript content to summarize.''.
\<close>

theorem summarize_empty:
  "get_segments t = [] \<Longrightarrow>
     summarize iter dumps now t format_type = ''No transcript content to summarize.''"
  by (simp add: summarize_def)

theorem summarize_empty_witness:
  "get_segments empty_transcript = []
   \<and> summarize id (\<lambda>j. []) noon empty_transcript ''json''
       = ''No transcript content to summarize.''"
proof -
  have e: "get_segments empty_transcript = []"
    by (simp add: get_segments_def empty_transcript_def)
  from summarize_empty [OF e] e show ?thesis by simp
qed

section \<open>Section headers of a rendered summary\<close>

















section \<open>Starting and stopping a recording\<close>

lemma recording_app_reached:
  "start_recording plain_path noon Device_Ok (Some ''a.wav'') app_init = (True, recording_app)"
  by (simp add: start_recording_def rs_start_recording_def app_init_def rs_init_def
      recording_app_def plain_path_def Let_def)

lemma rs_start_recording_busy:
  "rs_is_recording s \<Longrightarrow> rs_start_recording dev output_path s = (Return (), s)"
  by (simp add: rs_start_recording_def)

lemma start_recording_busy:
  assumes "rs_is_recording (app_recording_service a)" "q \<noteq> []"
  shows "start_recording str_path now dev (Some q) a
           = (True, a\<lparr>app_current_recording_path := Some (Path q), app_is_recording := True\<rparr>)"
  using assms by (simp add: start_recording_def rs_start_recording_busy Let_def)

text \<open>
  C7. While a recording is in progress, \<open>start_recording\<close> of the application
  returns \<open>True\<close> and replaces the current recording path: the recording service
  returns early, without a signal, and the application does not test for it.
\<close>

theorem start_recording_while_recording:
  "app_is_recording recording_app
   \<and> rs_is_recording (app_recording_service recording_app)
   \<and> app_current_recording_path recording_app = Some (Path ''a.wav'')
   \<and> start_recording plain_path noon Device_Ok (Some ''b.wav'') recording_app
       = (True, recording_app\<lparr>app_current_recording_path := Some (Path ''b.wav'')\<rparr>)"
  by (simp add: start_recording_busy recording_app_def)

lemma rs_stop_recording_path:
  assumes "fst (rs_stop_recording teardown_ok save_ok s) = Return (Some p)"
  shows "rs_is_recording s \<and> rs_output_path s = Some p \<and> p \<noteq> [] \<and> rs_frames s \<noteq> []"
  using assms by (auto simp: rs_stop_recording_def Let_def split: if_splits option.splits)

lemma rs_stop_recording_none:
  assumes "\<not> rs_is_recording s \<or> rs_frames s = []"
  shows "fst (rs_stop_recording teardown_ok save_ok s) \<in> {Return None, Raise}"
  using assms by (auto simp: rs_stop_recording_def Let_def split: if_splits option.splits)

text \<open>
  C8. With a recording in progress and no chunk captured, the recording service
  returns \<open>None\<close> from \<open>stop_recording\<close>, and the application, which drops that
  result, returns the recording path.
\<close>

theorem stop_recording_nothing_captured:
  "app_is_recording recording_app
   \<and> rs_frames (app_recording_service recording_app) = []
   \<and> fst (rs_stop_recording True True (app_recording_service recording_app)) = Return None
   \<and> fst (stop_recording plain_path True True recording_app) = Some ''a.wav''"
  by (simp add: stop_recording_def rs_stop_recording_def recording_app_def plain_path_def Let_def)

section \<open>Strings\<close>







lemma contains_prefix: "prefix sub s \<Longrightarrow> contains sub s"
  by (cases s) auto

lemma contains_append: "contains sub (pre @ sub @ post)"
  by (induction pre) (simp_all add: contains_prefix)

lemma find_from_prefix: "prefix sub s \<Longrightarrow> find_from sub s i = int i"
  by (cases s) auto

lemma find_from_first:
  "\<not> contains '']:'' (sp @ '']'') \<Longrightarrow> find_from '']:'' (sp @ '']:'' @ rest) i = int (i + length sp)"
proof (induction sp arbitrary: i)
  case Nil
  show ?case by simp
next
  case (Cons c cs)
  then have "\<not> prefix '']:'' (c # cs @ '']'')" and rec: "\<not> contains '']:'' (cs @ '']'')"
    by simp_all
  then have "\<not> prefix '']:'' (c # cs @ '']:'' @ rest)"
    by (cases cs) auto
  with Cons.IH [OF rec, of "Suc i"] show ?case by simp
qed


lemma str_split_no_sep: "sep \<notin> set l \<Longrightarrow> str_split sep l = [l]"
  by (induction l) auto



section \<open>Parsing a transcript file\<close>

lemma parse_step_ignored:
  assumes "strip raw = [] \<or> \<not> contains ''['' (strip raw) \<or> \<not> contains '']:'' (strip raw)"
  shows "parse_step segments raw = segments"
  using assms by (auto simp: parse_step_def Let_def)

lemma parse_step_bracketed:
  assumes line: "strip raw = ''['' @ sp @ '']:'' @ rest"
    and first: "\<not> contains '']:'' (sp @ '']'')"
  shows "parse_step segments raw = segments @ [parsed_segment (strip sp) (strip rest)]"
proof -
  let ?line = "strip raw"
  have c1: "contains ''['' ?line" by (simp add: line)
  have c2: "contains '']:'' ?line"
    using contains_append [of "'']:''" "''['' @ sp" rest] by (simp add: line)
  have "find_from '']:'' ?line 0 = find_from '']:'' (sp @ '']:'' @ rest) 1"
    by (simp add: line)
  with find_from_first [OF first, of rest 1]
  have f: "str_find ?line '']:'' = 1 + int (length sp)"
    by (simp add: str_find_def)
  have s1: "slice ?line 1 (1 + int (length sp)) = sp"
    by (simp add: line slice_def slice_index_def Let_def)
  have "nat (3 + int (length sp)) = Suc (Suc (Suc (length sp)))" by simp
  then have s2: "slice_from ?line (1 + int (length sp) + 2) = rest"
    by (simp add: line slice_from_def slice_index_def)
  from c1 c2 f s1 s2 show ?thesis
    by (simp add: parse_step_def Let_def parsed_segment_def line)
qed

lemma parse_step_append: "parse_step segments raw = segments @ parse_step [] raw"
  by (simp add: parse_step_def Let_def)

lemma foldl_parse_step:
  "foldl parse_step acc ls = acc @ concat (map (parse_step []) ls)"
proof (induction ls arbitrary: acc)
  case Nil
  show ?case by simp
next
  case (Cons l ls)
  show ?case
    using Cons.IH [of "parse_step acc l"] parse_step_append [of acc l] by simp
qed

lemma parse_step_placeholders:
  "s \<in> set (parse_step [] raw) \<Longrightarrow> seg_start s = 0 \<and> seg_end s = 0"
  by (auto simp: parse_step_def Let_def split: if_splits)

lemma parsed_segments:
  "get_segments (parse_transcript_file content)
     = concat (map (parse_step []) (str_split newline content))"
  by (simp add: parse_transcript_file_def Let_def get_segments_def foldl_parse_step)

text \<open>
  C6, as amended. A line that, trimmed, is empty or has no \<open>[\<close> or no \<open>]:\<close> is
  ignored. A line that, trimmed, starts with \<open>[\<close> and goes on with \<open>sp\<close>, the first
  \<open>]:\<close> of the line, and \<open>rest\<close>, gives a segment with speaker \<open>sp\<close> trimmed and
  text \<open>rest\<close> trimmed. Every segment of the parsed transcript has start 0 and end 0,
  and the duration is 10 times the number of segments.
\<close>

theorem parse_line_shape:
  "(strip raw1 = [] \<or> \<not> contains ''['' (strip raw1) \<or> \<not> contains '']:'' (strip raw1)
      \<longrightarrow> parse_step segments raw1 = segments)
   \<and> (strip raw2 = ''['' @ sp @ '']:'' @ rest \<and> \<not> contains '']:'' (sp @ '']'')
      \<longrightarrow> parse_step segments raw2 = segments @ [parsed_segment (strip sp) (strip rest)])
   \<and> (\<forall>s \<in> set (get_segments (parse_transcript_file content)). seg_start s = 0 \<and> seg_end s = 0)
   \<and> tr_duration (parse_transcript_file content)
       = Some (10 * int (length (get_segments (parse_transcript_file content))))"
proof (intro conjI impI ballI)
  fix s assume "s \<in> set (get_segments (parse_transcript_file content))"
  then obtain raw where "s \<in> set (parse_step [] raw)"
    by (auto simp: parsed_segments)
  then have "seg_start s = 0 \<and> seg_end s = 0" by (rule parse_step_placeholders)
  then show "seg_start s = 0" "seg_end s = 0" by simp_all
qed (auto simp: parse_step_ignored parse_step_bracketed parse_transcript_file_def Let_def
    get_segments_def)

lemma game_line_facts:
  "\<not> contains ''['' (strip ''Date: today'')"
  "strip game_line = ''['' @ '' Game Master '' @ '']:'' @ ''  roll for initiative''"
  "\<not> contains '']:'' ('' Game Master '' @ '']'')"
  "strip '' Game Master '' = ''Game Master''"
  "strip ''  roll for initiative'' = ''roll for initiative''"
  by code_simp+

lemma bob_line_parsed:
  "get_segments (parse_transcript_file ''[Bob]: hi'') = [parsed_segment ''Bob'' ''hi'']"
  by code_simp

theorem parse_line_shape_witness:
  "\<not> contains ''['' (strip ''Date: today'')
   \<and> parse_step [] ''Date: today'' = []
   \<and> strip game_line = ''['' @ '' Game Master '' @ '']:'' @ ''  roll for initiative''
   \<and> \<not> contains '']:'' ('' Game Master '' @ '']'')
   \<and> parse_step [] game_line = [parsed_segment ''Game Master'' ''roll for initiative'']
   \<and> get_segments (parse_transcript_file ''[Bob]: hi'') = [parsed_segment ''Bob'' ''hi'']
   \<and> tr_duration (parse_transcript_file ''[Bob]: hi'') = Some 10"
  using parse_line_shape [of "''Date: today''" "[]" game_line "'' Game Master ''"
      "''  roll for initiative''" "''[Bob]: hi''"]
    game_line_facts bob_line_parsed
  by simp

theorem parse_line_shape_counterexample:
  "get_segments (parse_transcript_file ''Notes [Bob]: hi'') = [parsed_segment ''otes [Bob'' ''hi'']
   \<and> get_segments (parse_transcript_file ''ok]: see [1'') = [parsed_segment ''k'' ''see [1'']
   \<and> get_segments (parse_transcript_file ''[ Bob ]: hi'') = [parsed_segment ''Bob'' ''hi'']"
  by code_simp

section \<open>Round trip of the transcript text\<close>

















end
